theory Spec2Isabelle
  imports Main "HOL-Library.Sublist"
begin

section \<open>Canvas aspect store: data model\<close>

text \<open>
  The selectors of \<^verbatim>\<open>canvas-aspect-store/selectors.ts\<close> read a feature state that
  extends the entity state of the entity adapter (\<^verbatim>\<open>ids\<close>, \<^verbatim>\<open>entities\<close>) with the
  array \<^verbatim>\<open>addedIds\<close>. JavaScript values that may be missing are modelled by a
  three-valued type: \<^verbatim>\<open>undefined\<close>, \<^verbatim>\<open>null\<close>, or a defined value.
\<close>

datatype 'a js = Undefined | Null | Defined 'a

datatype error = TypeError

text \<open>
  Modelled from the spec: the declaration of \<^verbatim>\<open>CanvasAspect\<close> (\<^verbatim>\<open>models\<close>) is not part
  of the sources. The selectors read the field \<^verbatim>\<open>id\<close> only; the data model of the
  specification adds a revision, absent on tentative aspects, and an opaque payload.
\<close>

record 'p CanvasAspect =
  id_field :: string
  revision :: "nat option"
  payload :: 'p

text \<open>
  Modelled from the spec: the declaration of \<^verbatim>\<open>State\<close> (\<^verbatim>\<open>state.ts\<close>) is not part of
  the sources. The fields are the ones the selectors read: the ordered array of ids and
  the dictionary of the entity adapter, and the array \<^verbatim>\<open>addedIds\<close>.

  The dictionary is modelled by the aspects it holds: \<open>entities s k = Some a\<close> says that
  \<^verbatim>\<open>entities[k]\<close> is the aspect \<open>a\<close>, and \<open>entities s k = None\<close> that it is
  \<^verbatim>\<open>undefined\<close>. A key whose value is \<^verbatim>\<open>undefined\<close> reads as a missing key reads and
  is modelled as one, so \<open>dom (entities s)\<close> is the set of keys that hold an aspect. Two
  things are outside the model: a value \<^verbatim>\<open>null\<close> in the dictionary, and an id that is
  the name of a member of \<^verbatim>\<open>Object.prototype\<close> (such as \<^verbatim>\<open>constructor\<close>), for which
  the lookup of the code returns that member.
\<close>

record 'p State =
  ids :: "string list"
  entities :: "string \<rightharpoonup> 'p CanvasAspect"
  addedIds :: "string list"

text \<open>The root state of the application holds the feature state under the key \<^verbatim>\<open>canvasAspect\<close>.\<close>

record 'st AppState =
  canvasAspect :: 'st

section \<open>JavaScript primitives used by the selectors\<close>

text \<open>
  \<^verbatim>\<open>dict[key]\<close> for a key that is not inherited: the aspect held under the key,
  \<^verbatim>\<open>undefined\<close> if the dictionary holds none there.
\<close>

definition lookup :: "(string \<rightharpoonup> 'a) \<Rightarrow> string \<Rightarrow> 'a js" where
  "lookup dict key = (case dict key of None \<Rightarrow> Undefined | Some v \<Rightarrow> Defined v)"

text \<open>
  \<^verbatim>\<open>Array.prototype.find\<close>: the first element on which the callback yields true,
  \<^verbatim>\<open>undefined\<close> when there is none. An exception thrown by the callback ends the search.
  The elements are JavaScript values, so the result is one as well.
\<close>

fun array_find :: "('a js \<Rightarrow> error + bool) \<Rightarrow> 'a js list \<Rightarrow> error + 'a js" where
  "array_find f [] = Inr Undefined"
| "array_find f (x # xs) =
     (case f x of
        Inl e \<Rightarrow> Inl e
      | Inr b \<Rightarrow> if b then Inr x else array_find f xs)"

text \<open>\<^verbatim>\<open>createSelector\<close> with one and with two input selectors (the memoised value is the computed one).\<close>

definition createSelector :: "('s \<Rightarrow> 'a) \<Rightarrow> ('a \<Rightarrow> 'r) \<Rightarrow> 's \<Rightarrow> 'r" where
  "createSelector sel projector s = projector (sel s)"

definition createSelector2 :: "('s \<Rightarrow> 'a) \<Rightarrow> ('s \<Rightarrow> 'b) \<Rightarrow> ('a \<Rightarrow> 'b \<Rightarrow> 'r) \<Rightarrow> 's \<Rightarrow> 'r" where
  "createSelector2 sel1 sel2 projector s = projector (sel1 s) (sel2 s)"

section \<open>The selectors\<close>

text \<open>\<^verbatim>\<open>createFeatureSelector('canvasAspect')\<close>.\<close>

definition selectCanvasAspectState :: "('st, 'm) AppState_scheme \<Rightarrow> 'st" where
  "selectCanvasAspectState root = canvasAspect root"

text \<open>
  \<^verbatim>\<open>featureAdapter.getSelectors(selectCanvasAspectState).selectAll\<close>: the entity
  adapter's \<^verbatim>\<open>selectAll\<close> is \<^verbatim>\<open>ids.map(id => entities[id])\<close> over its selectors of the
  two fields, and \<^verbatim>\<open>getSelectors\<close> composes it with the feature selector.
\<close>

definition selectIds :: "('p, 'm) State_scheme \<Rightarrow> string list" where
  "selectIds state = ids state"

definition selectEntities :: "('p, 'm) State_scheme \<Rightarrow> (string \<rightharpoonup> 'p CanvasAspect)" where
  "selectEntities state = entities state"

definition selectAll :: "('p, 'm) State_scheme \<Rightarrow> 'p CanvasAspect js list" where
  "selectAll = createSelector2 selectIds selectEntities (\<lambda>xs dict. map (\<lambda>i. lookup dict i) xs)"

definition selectAllCanvasAspectItems ::
    "(('p, 'm) State_scheme, 'n) AppState_scheme \<Rightarrow> 'p CanvasAspect js list" where
  "selectAllCanvasAspectItems = createSelector selectCanvasAspectState selectAll"

text \<open>
  The callback \<^verbatim>\<open>p => p.id === id\<close>: reading a property of \<^verbatim>\<open>undefined\<close> or \<^verbatim>\<open>null\<close>
  throws a \<^verbatim>\<open>TypeError\<close>.
\<close>

fun has_id :: "string \<Rightarrow> 'p CanvasAspect js \<Rightarrow> error + bool" where
  "has_id i (Defined p) = Inr (id_field p = i)"
| "has_id i Undefined = Inl TypeError"
| "has_id i Null = Inl TypeError"

text \<open>
  The projector of \<^verbatim>\<open>selectCanvasAspectById(id)\<close>. In \<^verbatim>\<open>if (allCanvasAspects)\<close> every
  array is truthy, the empty one too; \<^verbatim>\<open>undefined\<close> and \<^verbatim>\<open>null\<close> are falsy.
\<close>

definition byIdProjector ::
    "string \<Rightarrow> 'p CanvasAspect js list js \<Rightarrow> error + 'p CanvasAspect js" where
  "byIdProjector i allCanvasAspects =
     (case allCanvasAspects of
        Defined ps \<Rightarrow> array_find (has_id i) ps
      | Undefined \<Rightarrow> Inr Null
      | Null \<Rightarrow> Inr Null)"

definition selectCanvasAspectById ::
    "string \<Rightarrow> (('p, 'm) State_scheme, 'n) AppState_scheme \<Rightarrow> error + 'p CanvasAspect js" where
  "selectCanvasAspectById i =
     createSelector (\<lambda>root. Defined (selectAllCanvasAspectItems root)) (byIdProjector i)"

definition selectAddedCanvasAspects ::
    "(('p, 'm) State_scheme, 'n) AppState_scheme \<Rightarrow> 'p CanvasAspect js list" where
  "selectAddedCanvasAspects =
     createSelector selectCanvasAspectState
       (\<lambda>state. map (\<lambda>i. lookup (entities state) i) (addedIds state))"

text \<open>
  The view the specification describes for the pending aspects: the elements of a
  sequence whose id is a member of the pending set.
\<close>

definition idInPendingSet :: "string list \<Rightarrow> 'p CanvasAspect js \<Rightarrow> bool" where
  "idInPendingSet pending p = (case p of Defined a \<Rightarrow> id_field a \<in> set pending | _ \<Rightarrow> False)"

section \<open>The selectors on a store of objects\<close>

text \<open>
  For the question whether a selector writes to the state, the state is laid out as
  JavaScript has it: objects and arrays live in a store and are named by references.
  An address is a position of the store; a new array is allocated at its end.
  \<^verbatim>\<open>Array.prototype.map\<close> allocates the array it returns and leaves its receiver as it
  is; \<^verbatim>\<open>find\<close> and the property reads allocate nothing.
\<close>

type_synonym addr = nat

datatype 'p cell =
    StateCell addr addr addr
  | IdArray "string list"
  | Dict "string \<rightharpoonup> addr"
  | RefArray "addr js list"
  | AspectCell "'p CanvasAspect"

type_synonym 'p heap = "'p cell list"

definition cell_at :: "'p heap \<Rightarrow> addr \<Rightarrow> 'p cell option" where
  "cell_at h a = (if a < length h then Some (h ! a) else None)"

definition alloc :: "'p cell \<Rightarrow> 'p heap \<Rightarrow> addr \<times> 'p heap" where
  "alloc c h = (length h, h @ [c])"

text \<open>Reading a reference as an object of the expected kind; \<open>None\<close> if it is none.\<close>

definition fields_at :: "'p heap \<Rightarrow> addr \<Rightarrow> (addr \<times> addr \<times> addr) option" where
  "fields_at h a =
     (case cell_at h a of
        Some (StateCell idsRef entitiesRef addedRef) \<Rightarrow> Some (idsRef, entitiesRef, addedRef)
      | _ \<Rightarrow> None)"

definition ids_at :: "'p heap \<Rightarrow> addr \<Rightarrow> string list option" where
  "ids_at h a = (case cell_at h a of Some (IdArray xs) \<Rightarrow> Some xs | _ \<Rightarrow> None)"

definition dict_at :: "'p heap \<Rightarrow> addr \<Rightarrow> (string \<rightharpoonup> addr) option" where
  "dict_at h a = (case cell_at h a of Some (Dict d) \<Rightarrow> Some d | _ \<Rightarrow> None)"

definition refs_at :: "'p heap \<Rightarrow> addr \<Rightarrow> addr js list option" where
  "refs_at h a = (case cell_at h a of Some (RefArray ps) \<Rightarrow> Some ps | _ \<Rightarrow> None)"

definition deref :: "'p heap \<Rightarrow> addr \<Rightarrow> 'p CanvasAspect option" where
  "deref h a = (case cell_at h a of Some (AspectCell x) \<Rightarrow> Some x | _ \<Rightarrow> None)"

text \<open>
  \<^verbatim>\<open>arr.map(id => dict[id])\<close> for an array of ids and a dictionary of references: the
  looked-up values go into a new array. On a reference of another kind, which a typed
  state does not hold, the model answers with an error. Every operation on the store
  returns its result, or the error thrown, together with the store it leaves behind.
\<close>

definition map_lookup_heap :: "'p heap \<Rightarrow> addr \<Rightarrow> addr \<Rightarrow> (error + addr) \<times> 'p heap" where
  "map_lookup_heap h arr dict =
     (case (ids_at h arr, dict_at h dict) of
        (Some xs, Some d) \<Rightarrow>
          (case alloc (RefArray (map (\<lambda>i. lookup d i) xs)) h of (r, h') \<Rightarrow> (Inr r, h'))
      | _ \<Rightarrow> (Inl TypeError, h))"

text \<open>
  A \<^verbatim>\<open>StateCell\<close> holds the references of the fields \<^verbatim>\<open>ids\<close>, \<^verbatim>\<open>entities\<close> and
  \<^verbatim>\<open>addedIds\<close>, in this order.
\<close>

definition selectAll_heap :: "'p heap \<Rightarrow> addr \<Rightarrow> (error + addr) \<times> 'p heap" where
  "selectAll_heap h st =
     (case fields_at h st of
        Some (idsRef, entitiesRef, addedRef) \<Rightarrow> map_lookup_heap h idsRef entitiesRef
      | None \<Rightarrow> (Inl TypeError, h))"

definition selectAdded_heap :: "'p heap \<Rightarrow> addr \<Rightarrow> (error + addr) \<times> 'p heap" where
  "selectAdded_heap h st =
     (case fields_at h st of
        Some (idsRef, entitiesRef, addedRef) \<Rightarrow> map_lookup_heap h addedRef entitiesRef
      | None \<Rightarrow> (Inl TypeError, h))"

text \<open>\<^verbatim>\<open>p => p.id === id\<close> on a reference: the aspect is read from the store.\<close>

definition has_id_heap :: "'p heap \<Rightarrow> string \<Rightarrow> addr js \<Rightarrow> error + bool" where
  "has_id_heap h i p =
     (case p of
        Defined a \<Rightarrow> (case deref h a of Some x \<Rightarrow> Inr (id_field x = i) | None \<Rightarrow> Inl TypeError)
      | Undefined \<Rightarrow> Inl TypeError
      | Null \<Rightarrow> Inl TypeError)"

definition selectById_heap :: "string \<Rightarrow> 'p heap \<Rightarrow> addr \<Rightarrow> (error + addr js) \<times> 'p heap" where
  "selectById_heap i h st =
     (case selectAll_heap h st of
        (Inl e, h') \<Rightarrow> (Inl e, h')
      | (Inr r, h') \<Rightarrow>
          (case refs_at h' r of
             Some ps \<Rightarrow> (array_find (has_id_heap h' i) ps, h')
           | None \<Rightarrow> (Inr Null, h')))"

text \<open>Reading a state, an array of references and one reference back from the store.\<close>

definition state_of :: "'p heap \<Rightarrow> addr \<Rightarrow> 'p State option" where
  "state_of h st =
     (case fields_at h st of
        Some (idsRef, entitiesRef, addedRef) \<Rightarrow>
          (case (ids_at h idsRef, dict_at h entitiesRef, ids_at h addedRef) of
             (Some xs, Some d, Some ys) \<Rightarrow>
               Some \<lparr>ids = xs,
                     entities = (\<lambda>k. case d k of None \<Rightarrow> None | Some a \<Rightarrow> deref h a),
                     addedIds = ys\<rparr>
           | _ \<Rightarrow> None)
      | None \<Rightarrow> None)"

definition value_of :: "'p heap \<Rightarrow> addr js \<Rightarrow> 'p CanvasAspect js" where
  "value_of h p =
     (case p of
        Defined a \<Rightarrow> (case deref h a of Some x \<Rightarrow> Defined x | None \<Rightarrow> Undefined)
      | Undefined \<Rightarrow> Undefined
      | Null \<Rightarrow> Null)"

definition array_of :: "'p heap \<Rightarrow> addr \<Rightarrow> 'p CanvasAspect js list option" where
  "array_of h r = (case refs_at h r of Some ps \<Rightarrow> Some (map (value_of h) ps) | None \<Rightarrow> None)"

section \<open>The synchronisation engine of the specification\<close>

text \<open>
  The reducer, the actions and the effects that write the store are not part of the
  sources. The definitions of this section follow the specification: its data model and
  lifecycle (section 3), the contract of the entity store (4.1), the reconciliation
  engine (4.2), the message shapes (6) and the error kinds (7).
\<close>

text \<open>
  Modelled from the spec: the session state, whose reducer is missing. It extends the
  feature state the selectors read (EntityStore: \<^verbatim>\<open>ids\<close> and \<^verbatim>\<open>entities\<close>; PendingSet:
  \<^verbatim>\<open>addedIds\<close>) with what the engine keeps for itself: the confirmed base under a
  pending edit (4.2), and the number of sends of an id that are still unanswered (4.2: a
  second in-flight send can still be outstanding).
\<close>

record 'p Session = "'p State" +
  base :: "string \<rightharpoonup> 'p CanvasAspect"
  inflight :: "string \<Rightarrow> nat"

text \<open>Modelled from the spec: the session at subscription, before any event (missing reducer).\<close>

definition init :: "'p Session" where
  "init = \<lparr>ids = [], entities = Map.empty, addedIds = [], base = Map.empty, inflight = (\<lambda>i. 0)\<rparr>"

text \<open>
  Modelled from the spec: \<^verbatim>\<open>upsert\<close> of the missing entity store (4.1). It inserts if
  the id is absent (appended to the order) and replaces in place if the id is present
  (order preserved).
\<close>

definition upsert :: "'p CanvasAspect \<Rightarrow> ('p, 'm) State_scheme \<Rightarrow> ('p, 'm) State_scheme" where
  "upsert a s =
     (if id_field a \<in> set (ids s)
      then s\<lparr>entities := (entities s)(id_field a \<mapsto> a)\<rparr>
      else s\<lparr>ids := ids s @ [id_field a], entities := (entities s)(id_field a \<mapsto> a)\<rparr>)"

text \<open>
  Modelled from the spec: \<^verbatim>\<open>remove\<close> of the missing entity store (4.1). It is
  idempotent; removing an absent id is a no-op.
\<close>

definition remove :: "string \<Rightarrow> ('p, 'm) State_scheme \<Rightarrow> ('p, 'm) State_scheme" where
  "remove i s = s\<lparr>ids := removeAll i (ids s), entities := (entities s)(i := None)\<rparr>"

text \<open>Modelled from the spec: insertion into the missing pending set (3), a set of ids.\<close>

definition addPending :: "string \<Rightarrow> ('p, 'm) State_scheme \<Rightarrow> ('p, 'm) State_scheme" where
  "addPending i s =
     (if i \<in> set (addedIds s) then s else s\<lparr>addedIds := addedIds s @ [i]\<rparr>)"

text \<open>Modelled from the spec: removal from the missing pending set (3).\<close>

definition dropPending :: "string \<Rightarrow> ('p, 'm) State_scheme \<Rightarrow> ('p, 'm) State_scheme" where
  "dropPending i s = s\<lparr>addedIds := removeAll i (addedIds s)\<rparr>"

text \<open>
  Modelled from the spec: the reasons of a Reject, from the error kinds of section 7
  (the declaration of the messages is missing).
\<close>

datatype reason = ValidationRejected | ConflictRejected

text \<open>
  Modelled from the spec: the content of a RemoteChange message (6), an aspect or the
  deletion of an id (the declaration of the messages is missing).
\<close>

datatype 'p remote = Aspect "'p CanvasAspect" | Deletion string

text \<open>
  Modelled from the spec: the events a session reacts to, as tagged variants (6, 9): the
  intents of the user interface (create, update, delete) and the messages Ack, Reject
  and RemoteChange of the channel (the actions of the store are missing).
\<close>

datatype 'p event =
    LocalCreate "'p CanvasAspect"
  | LocalUpdate "'p CanvasAspect"
  | LocalDelete string
  | Ack string "'p CanvasAspect"
  | Reject string reason
  | RemoteChange "'p remote"

text \<open>
  Modelled from the spec: the comparison of the missing reconciliation engine (4.2, last
  writer wins by revision). A revision wins over the stored one if it is strictly
  greater; a confirmed revision wins over an entry that has none, and a change without a
  revision never wins.
\<close>

fun newer :: "nat option \<Rightarrow> nat option \<Rightarrow> bool" where
  "newer (Some r) (Some r') = (r' < r)"
| "newer (Some r) None = True"
| "newer None stored = False"

text \<open>
  Modelled from the spec: rekeying in the missing entity store (3, step 2: rekeying, not
  duplicating). The canonical id takes the position of the correlation id, and no second
  position keeps the canonical id.
\<close>

definition rekeyIds :: "string \<Rightarrow> string \<Rightarrow> string list \<Rightarrow> string list" where
  "rekeyIds old new xs =
     (if old = new then xs else map (\<lambda>i. if i = old then new else i) (removeAll new xs))"

text \<open>
  Modelled from the spec: a confirmed aspect under a pending edit, in the missing
  reconciliation engine (4.2). It goes to the confirmed base of its id, last writer wins
  by revision, and the edit stays the visible aspect.
\<close>

definition toBase ::
    "'p CanvasAspect \<Rightarrow> (string \<rightharpoonup> 'p CanvasAspect) \<Rightarrow> (string \<rightharpoonup> 'p CanvasAspect)" where
  "toBase c b =
     (case b (id_field c) of
        None \<Rightarrow> b(id_field c \<mapsto> c)
      | Some old \<Rightarrow> if newer (revision c) (revision old) then b(id_field c \<mapsto> c) else b)"

text \<open>
  Modelled from the spec: the confirmation of an entry by the missing reconciliation
  engine (3, step 2; 4.2). The entry is rekeyed and replaced by the canonical aspect, the
  correlation id leaves the pending set, and nothing of it stays with the engine. If the
  canonical id is another id that has a pending edit of its own, that edit is resolved
  only by its own Ack or Reject (4.2): it stays the visible aspect of the canonical id,
  and the canonical aspect goes to its base.
\<close>

definition settle :: "string \<Rightarrow> 'p CanvasAspect \<Rightarrow> 'p Session \<Rightarrow> 'p Session" where
  "settle corr c s =
     (if id_field c \<noteq> corr \<and> id_field c \<in> set (addedIds s)
      then s\<lparr>ids := rekeyIds corr (id_field c) (ids s),
             entities := (entities s)(corr := None),
             addedIds := removeAll corr (addedIds s),
             base := toBase c ((base s)(corr := None)),
             inflight := (inflight s)(corr := 0)\<rparr>
      else s\<lparr>ids := rekeyIds corr (id_field c) (ids s),
             entities := ((entities s)(corr := None))(id_field c \<mapsto> c),
             addedIds := removeAll corr (addedIds s),
             base := (base s)(corr := None),
             inflight := (inflight s)(corr := 0)\<rparr>)"

text \<open>
  Modelled from the spec: the local create of the missing reducer (3, step 1). The aspect
  is inserted under its tentative id, the id is marked pending, and the mutation is sent.
\<close>

definition localCreate :: "'p CanvasAspect \<Rightarrow> 'p Session \<Rightarrow> 'p Session" where
  "localCreate a s =
     (addPending (id_field a) (upsert a s))
       \<lparr>inflight := (inflight s)(id_field a := Suc (inflight s (id_field a)))\<rparr>"

text \<open>
  Modelled from the spec: the deletion of the missing reducer (3, step 5). It removes the
  id from the entity store and from the pending set.
\<close>

definition deleteAspect :: "string \<Rightarrow> 'p Session \<Rightarrow> 'p Session" where
  "deleteAspect i s =
     (dropPending i (remove i s))\<lparr>base := (base s)(i := None), inflight := (inflight s)(i := 0)\<rparr>"

text \<open>
  Modelled from the spec: the local update of the missing reducer (4.2, 7). An update of
  an id that is not in the store is a no-op (\<^verbatim>\<open>UnknownId\<close>); otherwise the edit becomes
  the visible aspect and is sent, and the confirmed aspect it replaces is kept as the base.
\<close>

definition localUpdate :: "'p CanvasAspect \<Rightarrow> 'p Session \<Rightarrow> 'p Session" where
  "localUpdate a s =
     (case entities s (id_field a) of
        None \<Rightarrow> s
      | Some old \<Rightarrow>
          (addPending (id_field a) (upsert a s))
            \<lparr>base := (if id_field a \<in> set (addedIds s) then base s
                       else (base s)(id_field a \<mapsto> old)),
             inflight := (inflight s)(id_field a := Suc (inflight s (id_field a)))\<rparr>)"

text \<open>
  Modelled from the spec: the Ack of the missing reconciliation engine (4.2). If the
  entry still exists and no newer send is outstanding, it is rekeyed to the canonical
  aspect and leaves the pending set. If it was sent again in the meantime, the Ack
  confirms that one send: the canonical aspect becomes the base and the id stays pending.
\<close>

definition ack :: "string \<Rightarrow> 'p CanvasAspect \<Rightarrow> 'p Session \<Rightarrow> 'p Session" where
  "ack corr c s =
     (if corr \<notin> set (addedIds s) \<or> corr \<notin> set (ids s) then s
      else if 1 < inflight s corr
        then s\<lparr>base := (base s)(corr \<mapsto> c), inflight := (inflight s)(corr := inflight s corr - 1)\<rparr>
      else settle corr c s)"

text \<open>
  Modelled from the spec: the Reject of the missing reconciliation engine (4.2; 3, step
  3). A rejected create is rolled back: the tentative entry is deleted. For an update the
  last known canonical state is retained, if there is one. Other ids are not touched.
\<close>

definition reject :: "string \<Rightarrow> reason \<Rightarrow> 'p Session \<Rightarrow> 'p Session" where
  "reject corr why s =
     (if corr \<notin> set (addedIds s) \<or> corr \<notin> set (ids s) then s
      else (case base s corr of
              None \<Rightarrow> deleteAspect corr s
            | Some b \<Rightarrow> settle corr b s))"

text \<open>
  Modelled from the spec: the RemoteChange that carries an aspect, of the missing
  reconciliation engine (4.2). Under a pending edit the change goes to the confirmed
  base and the edit stays visible; otherwise it is applied if the id is unknown locally
  or its revision is strictly greater than the stored one.
\<close>

definition remoteUpsert :: "'p CanvasAspect \<Rightarrow> 'p Session \<Rightarrow> 'p Session" where
  "remoteUpsert c s =
     (if id_field c \<in> set (addedIds s)
      then (case base s (id_field c) of
              None \<Rightarrow> s\<lparr>base := (base s)(id_field c \<mapsto> c)\<rparr>
            | Some b \<Rightarrow>
                if newer (revision c) (revision b) then s\<lparr>base := (base s)(id_field c \<mapsto> c)\<rparr>
                else s)
      else (case entities s (id_field c) of
              None \<Rightarrow> upsert c s
            | Some a \<Rightarrow> if newer (revision c) (revision a) then upsert c s else s))"

text \<open>
  Modelled from the spec: the RemoteChange that deletes an id, of the missing
  reconciliation engine (4.2: apply it, upsert or remove for deletes). Under a pending
  edit the deletion goes to the confirmed base and the edit stays visible, until its own
  Ack or Reject resolves it; otherwise it is the deletion of lifecycle step 5.
\<close>

definition remoteDelete :: "string \<Rightarrow> 'p Session \<Rightarrow> 'p Session" where
  "remoteDelete i s =
     (if i \<in> set (addedIds s) then s\<lparr>base := (base s)(i := None)\<rparr> else deleteAspect i s)"

text \<open>
  Modelled from the spec: the dispatch of the missing reducer, one reaction per event
  (5: events are handled one at a time).
\<close>

fun step :: "'p Session \<Rightarrow> 'p event \<Rightarrow> 'p Session" where
  "step s (LocalCreate a) = localCreate a s"
| "step s (LocalUpdate a) = localUpdate a s"
| "step s (LocalDelete i) = deleteAspect i s"
| "step s (Ack corr c) = ack corr c s"
| "step s (Reject corr why) = reject corr why s"
| "step s (RemoteChange (Aspect c)) = remoteUpsert c s"
| "step s (RemoteChange (Deletion i)) = remoteDelete i s"

text \<open>Modelled from the spec: the events of a sequence, handled in the order delivered (4.2).\<close>

definition run :: "'p Session \<Rightarrow> 'p event list \<Rightarrow> 'p Session" where
  "run = foldl step"


text \<open>
  A sequence of local creates in which every create is followed, at some later point, by
  the Ack with its correlation id, and every Ack carries a canonical aspect (one with a
  revision). The first argument lists the sends not yet answered.
\<close>

fun matched :: "string list \<Rightarrow> 'p event list \<Rightarrow> bool" where
  "matched out [] = (out = [])"
| "matched out (LocalCreate a # es) = matched (id_field a # out) es"
| "matched out (Ack corr c # es) =
     (corr \<in> set out \<and> revision c \<noteq> None \<and> matched (remove1 corr out) es)"
| "matched out (e # es) = False"

section \<open>Example states\<close>

definition aspectA :: "unit CanvasAspect" where
  "aspectA = \<lparr>id_field = ''a'', revision = Some 1, payload = ()\<rparr>"

definition aspectB :: "unit CanvasAspect" where
  "aspectB = \<lparr>id_field = ''b'', revision = None, payload = ()\<rparr>"

text \<open>Two aspects in the store, the second one pending.\<close>

definition storeAB :: "unit State AppState" where
  "storeAB = \<lparr>canvasAspect =
     \<lparr>ids = [''a'', ''b''], entities = [''a'' \<mapsto> aspectA, ''b'' \<mapsto> aspectB], addedIds = [''b'']\<rparr>\<rparr>"

text \<open>The same store with both ids pending, listed in the other order.\<close>

definition storeSwapped :: "unit State AppState" where
  "storeSwapped = \<lparr>canvasAspect =
     \<lparr>ids = [''a'', ''b''], entities = [''a'' \<mapsto> aspectA, ''b'' \<mapsto> aspectB],
      addedIds = [''b'', ''a'']\<rparr>\<rparr>"

text \<open>An id listed in \<^verbatim>\<open>ids\<close> and in \<^verbatim>\<open>addedIds\<close> that is no key of the dictionary.\<close>

definition storeDangling :: "unit State AppState" where
  "storeDangling = \<lparr>canvasAspect =
     \<lparr>ids = [''a''], entities = Map.empty, addedIds = [''a'']\<rparr>\<rparr>"

text \<open>Two aspects with the same id field, stored under two keys.\<close>

definition storeTwins :: "unit State AppState" where
  "storeTwins = \<lparr>canvasAspect =
     \<lparr>ids = [''x'', ''y''],
      entities = [''x'' \<mapsto> aspectA, ''y'' \<mapsto> aspectA\<lparr>revision := Some 2\<rparr>],
      addedIds = []\<rparr>\<rparr>"

text \<open>A store of objects that holds the state of \<open>storeAB\<close> at address 0.\<close>

definition heapAB :: "unit heap" where
  "heapAB =
     [StateCell 1 2 3, IdArray [''a'', ''b''], Dict [''a'' \<mapsto> 4, ''b'' \<mapsto> 5], IdArray [''b''],
      AspectCell aspectA, AspectCell aspectB]"

section \<open>Sessions of the engine\<close>

text \<open>The canonical aspects that the Acks of an event sequence carry.\<close>

fun acked :: "'p event list \<Rightarrow> 'p CanvasAspect set" where
  "acked [] = {}"
| "acked (Ack corr c # es) = insert c (acked es)"
| "acked (e # es) = acked es"

text \<open>
  The entry of an id is confirmed by a set of canonical aspects if it is one of them,
  stored under its own id, and carries a revision.
\<close>

definition confirmedBy :: "'p CanvasAspect set \<Rightarrow> 'p Session \<Rightarrow> string \<Rightarrow> bool" where
  "confirmedBy A s i = (\<exists>c \<in> A. entities s i = Some c \<and> id_field c = i \<and> revision c \<noteq> None)"

text \<open>
  The invariant of a session in which exactly the sends listed in \<open>out\<close> are unanswered:
  the pending ids are the ids of \<open>out\<close>, the counters of the session count them, the
  pending ids are in the store, and every entry that is not pending is confirmed.
\<close>

definition outstanding :: "'p CanvasAspect set \<Rightarrow> string list \<Rightarrow> 'p Session \<Rightarrow> bool" where
  "outstanding A out s \<longleftrightarrow>
     set (addedIds s) = set out \<and> (\<forall>i. inflight s i = count_list out i) \<and>
     set (addedIds s) \<subseteq> set (ids s) \<and>
     (\<forall>i \<in> set (ids s). i \<in> set (addedIds s) \<or> confirmedBy A s i)"

text \<open>
  The invariant of the entity store and the pending set (3, 4.1): no id has two positions,
  the ids of the order are the keys of the entries, every entry is stored under its own
  id, and every pending id is in the store.
\<close>

definition storeInv :: "('p, 'm) State_scheme \<Rightarrow> bool" where
  "storeInv s \<longleftrightarrow>
     distinct (ids s) \<and> dom (entities s) = set (ids s) \<and>
     (\<forall>i a. entities s i = Some a \<longrightarrow> id_field a = i) \<and>
     set (addedIds s) \<subseteq> set (ids s)"

definition tmp1 :: "string CanvasAspect" where
  "tmp1 = \<lparr>id_field = ''tmp-1'', revision = None, payload = ''P''\<rparr>"

definition c9r1 :: "string CanvasAspect" where
  "c9r1 = \<lparr>id_field = ''c-9'', revision = Some 1, payload = ''P''\<rparr>"

definition c9r2 :: "string CanvasAspect" where
  "c9r2 = \<lparr>id_field = ''c-9'', revision = Some 2, payload = ''R''\<rparr>"

definition c9edit :: "string CanvasAspect" where
  "c9edit = \<lparr>id_field = ''c-9'', revision = Some 1, payload = ''Q''\<rparr>"

text \<open>The aspect c-9 arrived at revision 1 and was then edited locally; the edit is pending.\<close>

definition sessionEditing :: "string Session" where
  "sessionEditing = run init [RemoteChange (Aspect c9r1), LocalUpdate c9edit]"

text \<open>The aspect tmp-1 was created locally and is pending.\<close>

definition sessionCreated :: "string Session" where
  "sessionCreated = run init [LocalCreate tmp1]"

section \<open>Properties of the selectors\<close>

lemma selectAll_closed:
  "selectAllCanvasAspectItems root =
     map (lookup (entities (canvasAspect root))) (ids (canvasAspect root))"
  by (simp add: selectAllCanvasAspectItems_def selectAll_def createSelector_def
      createSelector2_def selectCanvasAspectState_def selectIds_def selectEntities_def)

lemma selectAdded_closed:
  "selectAddedCanvasAspects root =
     map (lookup (entities (canvasAspect root))) (addedIds (canvasAspect root))"
  by (simp add: selectAddedCanvasAspects_def createSelector_def selectCanvasAspectState_def)

lemma selectById_closed:
  "selectCanvasAspectById i root = array_find (has_id i) (selectAllCanvasAspectItems root)"
  by (simp add: selectCanvasAspectById_def createSelector_def byIdProjector_def)

lemma lookup_Undefined_iff: "lookup m k = Undefined \<longleftrightarrow> k \<notin> dom m"
  by (auto simp: lookup_def split: option.splits)

lemma lookup_not_Null: "lookup m k \<noteq> Null" "Null \<noteq> lookup m k"
  by (simp_all add: lookup_def split: option.splits)

lemma subseq_set: "subseq xs ys \<Longrightarrow> set xs \<subseteq> set ys"
  by (induction xs ys rule: list_emb.induct) auto

lemma subseq_filter_mem:
  "subseq xs ys \<Longrightarrow> distinct ys \<Longrightarrow> filter (\<lambda>y. y \<in> set xs) ys = xs"
proof (induction xs ys rule: list_emb.induct)
  case (list_emb_Nil ys)
  then show ?case by simp
next
  case (list_emb_Cons xs ys y)
  from list_emb_Cons.hyps have "set xs \<subseteq> set ys" by (rule subseq_set)
  with list_emb_Cons.prems have "y \<notin> set xs" by auto
  with list_emb_Cons show ?case by simp
next
  case (list_emb_Cons2 x y xs ys)
  then have "x \<notin> set ys" by simp
  then have "filter (\<lambda>z. z \<in> set (x # xs)) ys = filter (\<lambda>z. z \<in> set xs) ys"
    by (intro filter_cong) auto
  with list_emb_Cons2 show ?case by simp
qed

lemma array_find_none:
  "\<forall>x \<in> set ps. \<exists>p. x = Defined p \<and> id_field p \<noteq> i \<Longrightarrow> array_find (has_id i) ps = Inr Undefined"
  by (induction ps) auto

lemma array_find_some:
  "\<forall>x \<in> set ps. x \<noteq> Undefined \<and> x \<noteq> Null \<Longrightarrow> \<exists>p. Defined p \<in> set ps \<and> id_field p = i \<Longrightarrow>
   \<exists>p. array_find (has_id i) ps = Inr (Defined p) \<and> id_field p = i \<and> Defined p \<in> set ps"
proof (induction ps)
  case Nil
  then show ?case by simp
next
  case (Cons x ps)
  then obtain q where q: "x = Defined q" by (cases x) auto
  show ?case
  proof (cases "id_field q = i")
    case True
    with q have "array_find (has_id i) (x # ps) = Inr (Defined q)" by simp
    with True q show ?thesis by simp
  next
    case False
    from Cons.prems(2) obtain p where p: "Defined p \<in> set (x # ps)" "id_field p = i" by blast
    with False q have "Defined p \<in> set ps" by auto
    with p(2) have ex: "\<exists>p. Defined p \<in> set ps \<and> id_field p = i" by blast
    from Cons.prems(1) have "\<forall>x \<in> set ps. x \<noteq> Undefined \<and> x \<noteq> Null" by simp
    from Cons.IH [OF this ex] obtain r where
      r: "array_find (has_id i) ps = Inr (Defined r)" "id_field r = i" "Defined r \<in> set ps"
      by blast
    from False q r(1) have "array_find (has_id i) (x # ps) = Inr (Defined r)" by simp
    with r show ?thesis by simp
  qed
qed

lemma array_find_not_Null: "Null \<notin> set ps \<Longrightarrow> array_find f ps \<noteq> Inr Null"
  by (induction ps) (auto split: sum.splits)

text \<open>
  Through \<^verbatim>\<open>selectAll\<close> the projector always receives an array, and \<^verbatim>\<open>find\<close> on the
  looked-up values never yields \<^verbatim>\<open>null\<close>: the composed selector does not return it.
\<close>

lemma selectById_not_Null: "selectCanvasAspectById i root \<noteq> Inr Null"
  unfolding selectById_closed
  by (rule array_find_not_Null) (auto simp: selectAll_closed lookup_not_Null)

text \<open>
  The all-aspects view has one element for each position of the id sequence of the
  state, the entry looked up for the id at that position. Whether the id sequence is
  kept in insertion order is decided where the state is written: by the configuration
  of the entity adapter and by the reducer, which are not part of the sources.
\<close>

lemma selectAll_follows_ids:
  "length (selectAllCanvasAspectItems root) = length (ids (canvasAspect root)) \<and>
   (\<forall>k < length (ids (canvasAspect root)).
      selectAllCanvasAspectItems root ! k =
        lookup (entities (canvasAspect root)) (ids (canvasAspect root) ! k))"
  by (simp add: selectAll_closed)

text \<open>
  C1 (as stated, refuted). The pending view follows the order of \<^verbatim>\<open>addedIds\<close>, not the
  order of the all-aspects view: with ids a, b in the store and \<^verbatim>\<open>addedIds\<close> listing b
  before a, the pending view is b, a, while the pending elements of the all-aspects view
  are a, b.
\<close>

theorem selectAdded_not_filter_counterexample:
  "selectAddedCanvasAspects storeSwapped \<noteq>
     filter (idInPendingSet (addedIds (canvasAspect storeSwapped)))
       (selectAllCanvasAspectItems storeSwapped)"
  by (simp add: selectAdded_closed selectAll_closed storeSwapped_def lookup_def
      idInPendingSet_def aspectA_def aspectB_def)

text \<open>
  C1 (amended). If the ids of the store are distinct, every id of the store is the key of
  an aspect whose id field is that key, and \<^verbatim>\<open>addedIds\<close> is a subsequence of the store's
  ids, then the pending view is the subsequence of the all-aspects view of the aspects
  whose id is in \<^verbatim>\<open>addedIds\<close>.
\<close>

theorem selectAdded_filter:
  assumes "distinct (ids (canvasAspect root))"
    and "\<forall>i \<in> set (ids (canvasAspect root)).
            \<exists>a. entities (canvasAspect root) i = Some a \<and> id_field a = i"
    and "subseq (addedIds (canvasAspect root)) (ids (canvasAspect root))"
  shows "selectAddedCanvasAspects root =
           filter (idInPendingSet (addedIds (canvasAspect root))) (selectAllCanvasAspectItems root)"
proof -
  let ?st = "canvasAspect root"
  have "filter (idInPendingSet (addedIds ?st)) (map (lookup (entities ?st)) (ids ?st)) =
        map (lookup (entities ?st)) (filter (\<lambda>i. i \<in> set (addedIds ?st)) (ids ?st))"
    unfolding filter_map
    by (rule arg_cong [where f = "map (lookup (entities ?st))"], rule filter_cong)
       (use assms(2) in \<open>auto simp: idInPendingSet_def lookup_def\<close>)
  also have "filter (\<lambda>i. i \<in> set (addedIds ?st)) (ids ?st) = addedIds ?st"
    using assms(3,1) by (rule subseq_filter_mem)
  finally show ?thesis
    by (simp add: selectAll_closed selectAdded_closed)
qed

theorem selectAdded_filter_witness:
  "distinct (ids (canvasAspect storeAB)) \<and>
   ids (canvasAspect storeAB) = [''a'', ''b''] \<and>
   entities (canvasAspect storeAB) ''a'' = Some aspectA \<and> id_field aspectA = ''a'' \<and>
   entities (canvasAspect storeAB) ''b'' = Some aspectB \<and> id_field aspectB = ''b'' \<and>
   subseq (addedIds (canvasAspect storeAB)) (ids (canvasAspect storeAB)) \<and>
   selectAddedCanvasAspects storeAB = [Defined aspectB] \<and>
   filter (idInPendingSet (addedIds (canvasAspect storeAB))) (selectAllCanvasAspectItems storeAB) =
     [Defined aspectB]"
proof -
  have 1: "distinct (ids (canvasAspect storeAB))"
    by (simp add: storeAB_def)
  have 2: "\<forall>i \<in> set (ids (canvasAspect storeAB)).
       \<exists>a. entities (canvasAspect storeAB) i = Some a \<and> id_field a = i"
    by (simp add: storeAB_def aspectA_def aspectB_def)
  have 3: "subseq (addedIds (canvasAspect storeAB)) (ids (canvasAspect storeAB))"
    by (simp add: storeAB_def)
  have 4: "selectAddedCanvasAspects storeAB = [Defined aspectB]"
    by (simp add: selectAdded_closed storeAB_def lookup_def)
  have 5: "ids (canvasAspect storeAB) = [''a'', ''b''] \<and>
   entities (canvasAspect storeAB) ''a'' = Some aspectA \<and> id_field aspectA = ''a'' \<and>
   entities (canvasAspect storeAB) ''b'' = Some aspectB \<and> id_field aspectB = ''b''"
    by (simp add: storeAB_def aspectA_def aspectB_def)
  from selectAdded_filter [OF 1 2 3] 1 3 4 5 show ?thesis by simp
qed

lemma array_find_first:
  "\<forall>x \<in> set ps. \<exists>p. x = Defined p \<Longrightarrow> \<exists>p. Defined p \<in> set ps \<and> id_field p = i \<Longrightarrow>
   \<exists>k p. k < length ps \<and> ps ! k = Defined p \<and> id_field p = i \<and>
         (\<forall>j<k. \<forall>q. ps ! j = Defined q \<longrightarrow> id_field q \<noteq> i) \<and>
         array_find (has_id i) ps = Inr (Defined p)"
proof (induction ps)
  case Nil
  then show ?case by simp
next
  case (Cons x ps)
  then obtain q where q: "x = Defined q" by auto
  show ?case
  proof (cases "id_field q = i")
    case True
    with q have "0 < length (x # ps) \<and> (x # ps) ! 0 = Defined q \<and> id_field q = i \<and>
        (\<forall>j<0. \<forall>r. (x # ps) ! j = Defined r \<longrightarrow> id_field r \<noteq> i) \<and>
        array_find (has_id i) (x # ps) = Inr (Defined q)"
      by simp
    then show ?thesis by blast
  next
    case False
    from Cons.prems(2) obtain p where "Defined p \<in> set (x # ps)" "id_field p = i" by blast
    with False q have ex: "\<exists>p. Defined p \<in> set ps \<and> id_field p = i" by auto
    from Cons.prems(1) have "\<forall>x \<in> set ps. \<exists>p. x = Defined p" by simp
    from Cons.IH [OF this ex] obtain k p where
      k: "k < length ps" "ps ! k = Defined p" "id_field p = i"
        "\<forall>j<k. \<forall>r. ps ! j = Defined r \<longrightarrow> id_field r \<noteq> i"
        "array_find (has_id i) ps = Inr (Defined p)"
      by blast
    have before: "\<forall>j<Suc k. \<forall>r. (x # ps) ! j = Defined r \<longrightarrow> id_field r \<noteq> i"
    proof (intro allI impI)
      fix j r assume j: "j < Suc k" and r: "(x # ps) ! j = Defined r"
      show "id_field r \<noteq> i"
      proof (cases j)
        case 0
        with r q False show ?thesis by simp
      next
        case (Suc j')
        with j r k(4) show ?thesis by simp
      qed
    qed
    from False q k(5) have "array_find (has_id i) (x # ps) = Inr (Defined p)" by simp
    with k(1,2,3) before have "Suc k < length (x # ps) \<and> (x # ps) ! Suc k = Defined p \<and>
        id_field p = i \<and> (\<forall>j<Suc k. \<forall>r. (x # ps) ! j = Defined r \<longrightarrow> id_field r \<noteq> i) \<and>
        array_find (has_id i) (x # ps) = Inr (Defined p)"
      by simp
    then show ?thesis by blast
  qed
qed

lemma view_all_defined:
  assumes "set (ids (canvasAspect root)) \<subseteq> dom (entities (canvasAspect root))"
  shows "\<forall>x \<in> set (selectAllCanvasAspectItems root). \<exists>p. x = Defined p"
  using assms by (auto simp: selectAll_closed lookup_def split: option.splits)

lemma view_member:
  "Defined p \<in> set (selectAllCanvasAspectItems root) \<longleftrightarrow>
     (\<exists>k \<in> set (ids (canvasAspect root)). entities (canvasAspect root) k = Some p)"
  by (auto simp: selectAll_closed lookup_def image_iff split: option.splits)

text \<open>
  Outside the states of the store the lookup can fail: if \<^verbatim>\<open>ids\<close> lists an id under
  which the dictionary holds no aspect, the all-aspects view holds \<^verbatim>\<open>undefined\<close> at that
  position, and the callback of \<^verbatim>\<open>find\<close> throws when it reads \<^verbatim>\<open>p.id\<close> of it.
\<close>

lemma selectById_dangling_throws:
  "selectCanvasAspectById ''a'' storeDangling = Inl TypeError"
  by (simp add: selectById_closed selectAll_closed storeDangling_def lookup_def)

text \<open>
  C5. In every state of the store, that is, in every state in which the dictionary holds
  an aspect under each id of \<^verbatim>\<open>ids\<close>, as the entity adapter keeps it, the by-id
  selector returns the first aspect of the all-aspects view whose id field equals the
  requested id when there is one, and returns the absent-marker \<^verbatim>\<open>undefined\<close>, not an
  error, when there is none. Where moreover the ids are distinct and every aspect is
  stored under its own id, the selector is the point lookup of the dictionary.
\<close>

theorem selectById_first_or_absent:
  assumes "set (ids (canvasAspect root)) \<subseteq> dom (entities (canvasAspect root))"
  shows "((\<exists>p. Defined p \<in> set (selectAllCanvasAspectItems root) \<and> id_field p = i) \<longrightarrow>
          (\<exists>k p. k < length (selectAllCanvasAspectItems root) \<and>
                 selectAllCanvasAspectItems root ! k = Defined p \<and> id_field p = i \<and>
                 (\<forall>j<k. \<forall>q. selectAllCanvasAspectItems root ! j = Defined q \<longrightarrow> id_field q \<noteq> i) \<and>
                 selectCanvasAspectById i root = Inr (Defined p))) \<and>
         ((\<forall>p. Defined p \<in> set (selectAllCanvasAspectItems root) \<longrightarrow> id_field p \<noteq> i) \<longrightarrow>
          selectCanvasAspectById i root = Inr Undefined) \<and>
         (storeInv (canvasAspect root) \<longrightarrow>
          selectCanvasAspectById i root = Inr (lookup (entities (canvasAspect root)) i))"
proof -
  let ?view = "selectAllCanvasAspectItems root"
  let ?st = "canvasAspect root"
  have all: "\<forall>x \<in> set ?view. \<exists>p. x = Defined p"
    using assms by (rule view_all_defined)
  have found: "\<exists>k p. k < length ?view \<and> ?view ! k = Defined p \<and> id_field p = i \<and>
       (\<forall>j<k. \<forall>q. ?view ! j = Defined q \<longrightarrow> id_field q \<noteq> i) \<and>
       selectCanvasAspectById i root = Inr (Defined p)"
    if "\<exists>p. Defined p \<in> set ?view \<and> id_field p = i"
    unfolding selectById_closed using all that by (rule array_find_first)
  have absent: "selectCanvasAspectById i root = Inr Undefined"
    if no: "\<forall>p. Defined p \<in> set ?view \<longrightarrow> id_field p \<noteq> i"
  proof -
    have "\<forall>x \<in> set ?view. \<exists>p. x = Defined p \<and> id_field p \<noteq> i"
    proof
      fix x assume x: "x \<in> set ?view"
      with all obtain p where "x = Defined p" by blast
      with x no show "\<exists>p. x = Defined p \<and> id_field p \<noteq> i" by blast
    qed
    then show ?thesis unfolding selectById_closed by (rule array_find_none)
  qed
  have point: "selectCanvasAspectById i root = Inr (lookup (entities ?st) i)"
    if inv: "storeInv ?st"
  proof (cases "entities ?st i")
    case None
    have "\<forall>p. Defined p \<in> set ?view \<longrightarrow> id_field p \<noteq> i"
    proof (intro allI impI)
      fix p assume "Defined p \<in> set ?view"
      then obtain k where "entities ?st k = Some p" by (auto simp: view_member)
      with inv have "id_field p = k" by (simp add: storeInv_def)
      with \<open>entities ?st k = Some p\<close> None show "id_field p \<noteq> i" by auto
    qed
    with absent None show ?thesis by (simp add: lookup_def)
  next
    case (Some a)
    with inv have a: "id_field a = i" "i \<in> set (ids ?st)"
      by (auto simp: storeInv_def)
    with Some have "Defined a \<in> set ?view" by (auto simp: view_member)
    with a(1) found obtain p where
      p: "selectCanvasAspectById i root = Inr (Defined p)" "id_field p = i"
        "Defined p \<in> set ?view"
      by (metis nth_mem)
    from p(3) obtain k where k: "entities ?st k = Some p" by (auto simp: view_member)
    with inv have "id_field p = k" by (simp add: storeInv_def)
    with p(2) k Some have "p = a" by simp
    with p(1) Some show ?thesis by (simp add: lookup_def)
  qed
  from found absent point show ?thesis by blast
qed

theorem selectById_first_or_absent_witness:
  "set (ids (canvasAspect storeAB)) \<subseteq> dom (entities (canvasAspect storeAB)) \<and>
   storeInv (canvasAspect storeAB) \<and>
   selectAllCanvasAspectItems storeAB = [Defined aspectA, Defined aspectB] \<and>
   id_field aspectA = ''a'' \<and> id_field aspectB = ''b'' \<and>
   selectCanvasAspectById ''b'' storeAB = Inr (Defined aspectB) \<and>
   selectCanvasAspectById ''c'' storeAB = Inr Undefined"
proof -
  have sub: "set (ids (canvasAspect storeAB)) \<subseteq> dom (entities (canvasAspect storeAB))"
    by (simp add: storeAB_def)
  have inv: "storeInv (canvasAspect storeAB)"
    by (auto simp: storeInv_def storeAB_def aspectA_def aspectB_def split: if_splits)
  have all: "selectAllCanvasAspectItems storeAB = [Defined aspectA, Defined aspectB]"
    by (simp add: selectAll_closed storeAB_def lookup_def)
  have b: "id_field aspectB = ''b''" and a: "id_field aspectA = ''a''"
    by (simp_all add: aspectA_def aspectB_def)
  have ent: "entities (canvasAspect storeAB) ''b'' = Some aspectB"
    "entities (canvasAspect storeAB) ''c'' = None"
    by (simp_all add: storeAB_def)
  from selectById_first_or_absent [OF sub, of "''b''"] inv ent
  have "selectCanvasAspectById ''b'' storeAB = Inr (Defined aspectB)" by (simp add: lookup_def)
  moreover from selectById_first_or_absent [OF sub, of "''c''"] all a b
  have "selectCanvasAspectById ''c'' storeAB = Inr Undefined" by auto
  ultimately show ?thesis using sub inv all a b by simp
qed

text \<open>Of two aspects with the requested id field the selector returns the first of the view.\<close>

lemma selectById_first_of_two:
  "selectCanvasAspectById ''a'' storeTwins = Inr (Defined aspectA)"
  by (simp add: selectById_closed selectAll_closed storeTwins_def lookup_def aspectA_def)

text \<open>
  C9 (as stated, refuted). The by-id selector has one absent-marker, not two: in no
  state and for no id does it return \<^verbatim>\<open>null\<close>. Its projector is always handed the
  array that \<^verbatim>\<open>selectAll\<close> builds, never an absent list, and \<^verbatim>\<open>find\<close> yields an
  element of that array or \<^verbatim>\<open>undefined\<close>.
\<close>

theorem selectById_never_null_counterexample:
  "\<forall>i (root :: unit State AppState). selectCanvasAspectById i root \<noteq> Inr Null"
  by (simp add: selectById_not_Null)

text \<open>
  C9 (amended). The by-id selector never returns \<^verbatim>\<open>null\<close>; when the all-aspects list
  holds only aspects and none of them has the requested id, it returns \<^verbatim>\<open>undefined\<close>,
  the result of \<^verbatim>\<open>find\<close>. The \<^verbatim>\<open>null\<close> of the source belongs to the projector alone:
  the projector returns it when it is handed a list that is \<^verbatim>\<open>undefined\<close> or \<^verbatim>\<open>null\<close>.
\<close>

theorem selectById_single_absent_marker:
  fixes root :: "(('p, 'm) State_scheme, 'n) AppState_scheme"
  shows "selectCanvasAspectById i root \<noteq> Inr Null \<and>
   ((\<forall>x \<in> set (selectAllCanvasAspectItems root). \<exists>p. x = Defined p \<and> id_field p \<noteq> i) \<longrightarrow>
      selectCanvasAspectById i root = Inr Undefined) \<and>
   byIdProjector j (Undefined :: 'p CanvasAspect js list js) = Inr Null \<and>
   byIdProjector j (Null :: 'p CanvasAspect js list js) = Inr Null"
proof -
  have "selectCanvasAspectById i root \<noteq> Inr Null"
    by (rule selectById_not_Null)
  moreover have "selectCanvasAspectById i root = Inr Undefined"
    if "\<forall>x \<in> set (selectAllCanvasAspectItems root). \<exists>p. x = Defined p \<and> id_field p \<noteq> i"
    unfolding selectById_closed using that by (rule array_find_none)
  moreover have "byIdProjector j (Undefined :: 'p CanvasAspect js list js) = Inr Null"
    "byIdProjector j (Null :: 'p CanvasAspect js list js) = Inr Null"
    by (simp_all add: byIdProjector_def)
  ultimately show ?thesis by blast
qed

theorem selectById_single_absent_marker_witness:
  "selectAllCanvasAspectItems storeAB = [Defined aspectA, Defined aspectB] \<and>
   id_field aspectA \<noteq> ''c'' \<and> id_field aspectB \<noteq> ''c'' \<and>
   selectCanvasAspectById ''c'' storeAB = Inr Undefined \<and>
   selectCanvasAspectById ''c'' storeAB \<noteq> Inr Null \<and>
   byIdProjector ''c'' (Null :: unit CanvasAspect js list js) = Inr Null"
proof -
  have all: "selectAllCanvasAspectItems storeAB = [Defined aspectA, Defined aspectB]"
    by (simp add: selectAll_closed storeAB_def lookup_def)
  have ids: "id_field aspectA \<noteq> ''c''" "id_field aspectB \<noteq> ''c''"
    by (simp_all add: aspectA_def aspectB_def)
  from selectById_single_absent_marker [of "''c''" storeAB "''c''"] all ids
  show ?thesis by simp
qed

text \<open>
  C10. The pending view looks each id of \<^verbatim>\<open>addedIds\<close> up without a guard: if every id
  of \<^verbatim>\<open>addedIds\<close> is a key of \<^verbatim>\<open>entities\<close>, every element of the view is a defined
  aspect; and at every position of \<^verbatim>\<open>addedIds\<close> whose id is no key of \<^verbatim>\<open>entities\<close>
  the view holds \<^verbatim>\<open>undefined\<close>.
\<close>

theorem selectAdded_defined_or_undefined:
  "(set (addedIds (canvasAspect root)) \<subseteq> dom (entities (canvasAspect root)) \<longrightarrow>
      (\<forall>x \<in> set (selectAddedCanvasAspects root). \<exists>p. x = Defined p)) \<and>
   (\<forall>k < length (addedIds (canvasAspect root)).
      addedIds (canvasAspect root) ! k \<notin> dom (entities (canvasAspect root)) \<longrightarrow>
      k < length (selectAddedCanvasAspects root) \<and> selectAddedCanvasAspects root ! k = Undefined)"
  by (auto simp: selectAdded_closed lookup_def split: option.splits)

theorem selectAdded_defined_or_undefined_witness:
  "set (addedIds (canvasAspect storeAB)) \<subseteq> dom (entities (canvasAspect storeAB)) \<and>
   selectAddedCanvasAspects storeAB = [Defined aspectB] \<and>
   (0::nat) < length (addedIds (canvasAspect storeDangling)) \<and>
   addedIds (canvasAspect storeDangling) ! 0 \<notin> dom (entities (canvasAspect storeDangling)) \<and>
   selectAddedCanvasAspects storeDangling ! 0 = Undefined"
proof -
  have 1: "set (addedIds (canvasAspect storeAB)) \<subseteq> dom (entities (canvasAspect storeAB))"
    by (simp add: storeAB_def)
  have 2: "selectAddedCanvasAspects storeAB = [Defined aspectB]"
    by (simp add: selectAdded_closed storeAB_def lookup_def)
  have 3: "(0::nat) < length (addedIds (canvasAspect storeDangling))"
    and 4: "addedIds (canvasAspect storeDangling) ! 0 \<notin> dom (entities (canvasAspect storeDangling))"
    by (simp_all add: storeDangling_def)
  from selectAdded_defined_or_undefined [of storeDangling] 3 4
  have "selectAddedCanvasAspects storeDangling ! 0 = Undefined" by blast
  with 1 2 3 4 show ?thesis by simp
qed

section \<open>The selectors do not write to the state\<close>

lemma cell_at_alloc:
  "cell_at (h @ [c]) a = (if a = length h then Some c else cell_at h a)"
  by (cases "a < length h") (simp_all add: cell_at_def nth_append)

lemma readers_alloc_array:
  "fields_at (h @ [RefArray ps]) a = fields_at h a"
  "ids_at (h @ [RefArray ps]) a = ids_at h a"
  "dict_at (h @ [RefArray ps]) a = dict_at h a"
  "deref (h @ [RefArray ps]) a = deref h a"
  by (simp_all add: fields_at_def ids_at_def dict_at_def deref_def cell_at_alloc)
     (simp_all add: cell_at_def)

lemma refs_at_alloc: "refs_at (h @ [RefArray ps]) (length h) = Some ps"
  by (simp add: refs_at_def cell_at_alloc)

lemma state_of_alloc_array: "state_of (h @ [RefArray ps]) st = state_of h st"
  by (simp add: state_of_def readers_alloc_array cong: option.case_cong prod.case_cong)

lemma value_of_alloc_array: "value_of (h @ [RefArray ps]) p = value_of h p"
  by (cases p) (simp_all add: value_of_def readers_alloc_array)

lemma map_lookup_heap_cases:
  "map_lookup_heap h arr dict = (Inl TypeError, h) \<or>
   (\<exists>xs d. ids_at h arr = Some xs \<and> dict_at h dict = Some d \<and>
      map_lookup_heap h arr dict = (Inr (length h), h @ [RefArray (map (lookup d) xs)]))"
  by (auto simp: map_lookup_heap_def alloc_def split: option.splits)

lemma map_lookup_heap_frame:
  "take (length h) (snd (map_lookup_heap h arr dict)) = h \<and>
   state_of (snd (map_lookup_heap h arr dict)) st = state_of h st"
  using map_lookup_heap_cases [of h arr dict] by (auto simp: state_of_alloc_array)

lemma selectAll_heap_frame:
  "take (length h) (snd (selectAll_heap h st)) = h \<and>
   state_of (snd (selectAll_heap h st)) st = state_of h st"
  by (cases "fields_at h st") (auto simp: selectAll_heap_def map_lookup_heap_frame)

lemma selectAdded_heap_frame:
  "take (length h) (snd (selectAdded_heap h st)) = h \<and>
   state_of (snd (selectAdded_heap h st)) st = state_of h st"
  by (cases "fields_at h st") (auto simp: selectAdded_heap_def map_lookup_heap_frame)

lemma selectById_heap_store: "snd (selectById_heap i h st) = snd (selectAll_heap h st)"
  by (cases "selectAll_heap h st")
     (auto simp: selectById_heap_def split: sum.splits option.splits)

text \<open>
  C8. On the store of objects each of the three selectors, whether it returns a value or
  throws, leaves every cell that existed before as it was (the store after the call is
  the store before it, at most extended by the array the selector returns), and the
  state read back from the store is the same: the entity store and the pending set are
  read, never written.
\<close>

theorem selectors_read_only:
  "take (length h) (snd (selectAll_heap h st)) = h \<and>
   state_of (snd (selectAll_heap h st)) st = state_of h st \<and>
   take (length h) (snd (selectById_heap i h st)) = h \<and>
   state_of (snd (selectById_heap i h st)) st = state_of h st \<and>
   take (length h) (snd (selectAdded_heap h st)) = h \<and>
   state_of (snd (selectAdded_heap h st)) st = state_of h st"
  using selectAll_heap_frame [of h st] selectAdded_heap_frame [of h st]
  by (simp add: selectById_heap_store)

theorem selectors_read_only_witness:
  "selectAll_heap heapAB 0 = (Inr 6, heapAB @ [RefArray [Defined 4, Defined 5]]) \<and>
   selectById_heap ''b'' heapAB 0 = (Inr (Defined 5), heapAB @ [RefArray [Defined 4, Defined 5]]) \<and>
   selectAdded_heap heapAB 0 = (Inr 6, heapAB @ [RefArray [Defined 5]]) \<and>
   state_of (heapAB @ [RefArray [Defined 4, Defined 5]]) 0 = Some (canvasAspect storeAB) \<and>
   state_of (heapAB @ [RefArray [Defined 5]]) 0 = Some (canvasAspect storeAB) \<and>
   state_of heapAB 0 = Some (canvasAspect storeAB)"
proof -
  have cells: "cell_at heapAB 0 = Some (StateCell 1 2 3)"
    "cell_at heapAB (Suc 0) = Some (IdArray [''a'', ''b''])"
    "cell_at heapAB 2 = Some (Dict [''a'' \<mapsto> 4, ''b'' \<mapsto> 5])"
    "cell_at heapAB 3 = Some (IdArray [''b''])"
    "cell_at heapAB 4 = Some (AspectCell aspectA)"
    "cell_at heapAB 5 = Some (AspectCell aspectB)"
    "length heapAB = 6"
    by (simp_all add: cell_at_def heapAB_def)
  have all: "selectAll_heap heapAB 0 = (Inr 6, heapAB @ [RefArray [Defined 4, Defined 5]])"
    by (simp add: selectAll_heap_def map_lookup_heap_def alloc_def fields_at_def ids_at_def
        dict_at_def cells lookup_def)
  have added: "selectAdded_heap heapAB 0 = (Inr 6, heapAB @ [RefArray [Defined 5]])"
    by (simp add: selectAdded_heap_def map_lookup_heap_def alloc_def fields_at_def ids_at_def
        dict_at_def cells lookup_def)
  have byId: "selectById_heap ''b'' heapAB 0 =
      (Inr (Defined 5), heapAB @ [RefArray [Defined 4, Defined 5]])"
    by (simp add: selectById_heap_def all refs_at_def has_id_heap_def deref_def cell_at_alloc
        cells aspectA_def aspectB_def)
  have st: "state_of heapAB 0 = Some (canvasAspect storeAB)"
    by (auto simp: state_of_def fields_at_def ids_at_def dict_at_def deref_def cells
        storeAB_def fun_eq_iff)
  from selectors_read_only [of heapAB 0 "''b''"] all added byId st
  show ?thesis by simp
qed

text \<open>
  The selectors on the store compute what the selectors on values compute: on a store
  that holds a state they return, and their results, read back from the store, are the
  results of the selectors on that state.
\<close>

lemma lookup_state_of:
  "value_of h (lookup d k) = lookup (\<lambda>k. case d k of None \<Rightarrow> None | Some a \<Rightarrow> deref h a) k"
  by (simp add: value_of_def lookup_def split: option.splits)

lemma selectAll_heap_refines:
  assumes "state_of h st = Some s"
  shows "\<exists>r h'. selectAll_heap h st = (Inr r, h') \<and>
           array_of h' r = Some (selectAllCanvasAspectItems \<lparr>canvasAspect = s\<rparr>)"
proof -
  from assms obtain ri re ra xs d ys where
    f: "fields_at h st = Some (ri, re, ra)" "ids_at h ri = Some xs" "dict_at h re = Some d"
       "ids_at h ra = Some ys"
    and s: "s = \<lparr>ids = xs, entities = (\<lambda>k. case d k of None \<Rightarrow> None | Some a \<Rightarrow> deref h a),
                 addedIds = ys\<rparr>"
    by (auto simp: state_of_def split: option.splits)
  let ?ps = "map (lookup d) xs"
  have "selectAll_heap h st = (Inr (length h), h @ [RefArray ?ps])"
    using f by (simp add: selectAll_heap_def map_lookup_heap_def alloc_def)
  moreover have "array_of (h @ [RefArray ?ps]) (length h) =
      Some (selectAllCanvasAspectItems \<lparr>canvasAspect = s\<rparr>)"
    by (simp add: array_of_def refs_at_alloc value_of_alloc_array selectAll_closed s
        lookup_state_of readers_alloc_array cong: option.case_cong)
  ultimately show ?thesis by blast
qed

lemma selectAdded_heap_refines:
  assumes "state_of h st = Some s"
  shows "\<exists>r h'. selectAdded_heap h st = (Inr r, h') \<and>
           array_of h' r = Some (selectAddedCanvasAspects \<lparr>canvasAspect = s\<rparr>)"
proof -
  from assms obtain ri re ra xs d ys where
    f: "fields_at h st = Some (ri, re, ra)" "ids_at h ri = Some xs" "dict_at h re = Some d"
       "ids_at h ra = Some ys"
    and s: "s = \<lparr>ids = xs, entities = (\<lambda>k. case d k of None \<Rightarrow> None | Some a \<Rightarrow> deref h a),
                 addedIds = ys\<rparr>"
    by (auto simp: state_of_def split: option.splits)
  let ?ps = "map (lookup d) ys"
  have "selectAdded_heap h st = (Inr (length h), h @ [RefArray ?ps])"
    using f by (simp add: selectAdded_heap_def map_lookup_heap_def alloc_def)
  moreover have "array_of (h @ [RefArray ?ps]) (length h) =
      Some (selectAddedCanvasAspects \<lparr>canvasAspect = s\<rparr>)"
    by (simp add: array_of_def refs_at_alloc value_of_alloc_array selectAdded_closed s
        lookup_state_of readers_alloc_array cong: option.case_cong)
  ultimately show ?thesis by blast
qed

lemma has_id_value_of: "has_id i (value_of h p) = has_id_heap h i p"
  by (cases p) (simp_all add: value_of_def has_id_heap_def split: option.splits)

lemma array_find_value_of:
  "array_find (has_id i) (map (value_of h) ps) =
     (case array_find (has_id_heap h i) ps of Inl e \<Rightarrow> Inl e | Inr v \<Rightarrow> Inr (value_of h v))"
proof (induction ps)
  case Nil
  then show ?case by (simp add: value_of_def)
next
  case (Cons p ps)
  then show ?case
    by (cases "has_id_heap h i p") (simp_all add: has_id_value_of)
qed

lemma selectById_heap_refines:
  assumes "state_of h st = Some s"
  shows "(case selectById_heap i h st of
            (Inl e, h') \<Rightarrow> Inl e
          | (Inr v, h') \<Rightarrow> Inr (value_of h' v)) =
           selectCanvasAspectById i \<lparr>canvasAspect = s\<rparr>"
proof -
  from selectAll_heap_refines [OF assms] obtain r h' where
    all: "selectAll_heap h st = (Inr r, h')"
    and arr: "array_of h' r = Some (selectAllCanvasAspectItems \<lparr>canvasAspect = s\<rparr>)"
    by blast
  from arr obtain ps where ps: "refs_at h' r = Some ps"
    and eq: "selectAllCanvasAspectItems \<lparr>canvasAspect = s\<rparr> = map (value_of h') ps"
    by (auto simp: array_of_def split: option.splits)
  show ?thesis
    by (simp add: selectById_heap_def all ps selectById_closed eq array_find_value_of
        split: sum.splits)
qed

section \<open>Properties of the synchronisation engine\<close>

lemma set_rekeyIds:
  "old \<in> set xs \<Longrightarrow> set (rekeyIds old new xs) = insert new (set xs - {old})"
  by (auto simp: rekeyIds_def)

lemma ids_upsert: "set (ids (upsert a s)) = insert (id_field a) (set (ids s))"
  by (auto simp: upsert_def)

lemma addedIds_upsert: "addedIds (upsert a s) = addedIds s"
  by (simp add: upsert_def)

lemma entities_upsert: "entities (upsert a s) = (entities s)(id_field a \<mapsto> a)"
  by (simp add: upsert_def)

lemma ids_addPending: "ids (addPending i s) = ids s"
  by (simp add: addPending_def)

lemma entities_addPending: "entities (addPending i s) = entities s"
  by (simp add: addPending_def)

lemma set_addedIds_addPending: "set (addedIds (addPending i s)) = insert i (set (addedIds s))"
  by (auto simp: addPending_def)

lemma localCreate_fields:
  "set (ids (localCreate a s)) = insert (id_field a) (set (ids s))"
  "set (addedIds (localCreate a s)) = insert (id_field a) (set (addedIds s))"
  "entities (localCreate a s) = (entities s)(id_field a \<mapsto> a)"
  "inflight (localCreate a s) = (inflight s)(id_field a := Suc (inflight s (id_field a)))"
  by (simp_all add: localCreate_def ids_addPending set_addedIds_addPending ids_upsert
      addedIds_upsert entities_addPending entities_upsert)

lemma deleteAspect_fields:
  "ids (deleteAspect i s) = removeAll i (ids s)"
  "addedIds (deleteAspect i s) = removeAll i (addedIds s)"
  "entities (deleteAspect i s) = (entities s)(i := None)"
  by (simp_all add: deleteAspect_def dropPending_def remove_def)

lemma settle_fields:
  "ids (settle corr c s) = rekeyIds corr (id_field c) (ids s)"
  "addedIds (settle corr c s) = removeAll corr (addedIds s)"
  "entities (settle corr c s) =
     (if id_field c \<noteq> corr \<and> id_field c \<in> set (addedIds s) then (entities s)(corr := None)
      else ((entities s)(corr := None))(id_field c \<mapsto> c))"
  "inflight (settle corr c s) = (inflight s)(corr := 0)"
  by (simp_all add: settle_def)


lemma pending_localCreate:
  "set (addedIds s) \<subseteq> set (ids s) \<Longrightarrow> set (addedIds (localCreate a s)) \<subseteq> set (ids (localCreate a s))"
  by (auto simp: localCreate_fields)

lemma pending_localUpdate:
  "set (addedIds s) \<subseteq> set (ids s) \<Longrightarrow> set (addedIds (localUpdate a s)) \<subseteq> set (ids (localUpdate a s))"
  by (cases "entities s (id_field a)")
     (auto simp: localUpdate_def ids_addPending set_addedIds_addPending ids_upsert addedIds_upsert)

lemma pending_deleteAspect:
  "set (addedIds s) \<subseteq> set (ids s) \<Longrightarrow> set (addedIds (deleteAspect i s)) \<subseteq> set (ids (deleteAspect i s))"
  by (auto simp: deleteAspect_fields)

lemma pending_settle:
  "set (addedIds s) \<subseteq> set (ids s) \<Longrightarrow> corr \<in> set (ids s) \<Longrightarrow>
   set (addedIds (settle corr c s)) \<subseteq> set (ids (settle corr c s))"
  by (auto simp: settle_fields set_rekeyIds)

lemma pending_ack:
  "set (addedIds s) \<subseteq> set (ids s) \<Longrightarrow> set (addedIds (ack corr c s)) \<subseteq> set (ids (ack corr c s))"
  using pending_settle [of s corr c] by (simp add: ack_def)

lemma pending_reject:
  "set (addedIds s) \<subseteq> set (ids s) \<Longrightarrow> set (addedIds (reject corr why s)) \<subseteq> set (ids (reject corr why s))"
  using pending_settle [of s corr] pending_deleteAspect [of s corr]
  by (simp add: reject_def split: option.splits)

lemma remoteUpsert_pending:
  "addedIds (remoteUpsert c s) = addedIds s"
  by (simp add: remoteUpsert_def addedIds_upsert split: option.splits)

lemma remoteUpsert_ids:
  "set (ids s) \<subseteq> set (ids (remoteUpsert c s))"
  by (auto simp: remoteUpsert_def ids_upsert split: option.splits)

lemma pending_remoteUpsert:
  "set (addedIds s) \<subseteq> set (ids s) \<Longrightarrow> set (addedIds (remoteUpsert c s)) \<subseteq> set (ids (remoteUpsert c s))"
  using remoteUpsert_ids [of s c] by (auto simp: remoteUpsert_pending)

lemma pending_remoteDelete:
  "set (addedIds s) \<subseteq> set (ids s) \<Longrightarrow> set (addedIds (remoteDelete i s)) \<subseteq> set (ids (remoteDelete i s))"
  using pending_deleteAspect [of s i] by (simp add: remoteDelete_def)

lemma pending_step:
  "set (addedIds s) \<subseteq> set (ids s) \<Longrightarrow> set (addedIds (step s e)) \<subseteq> set (ids (step s e))"
proof (cases e)
  case (RemoteChange x)
  then show "set (addedIds s) \<subseteq> set (ids s) \<Longrightarrow> ?thesis"
    by (cases x) (simp_all add: pending_remoteUpsert pending_remoteDelete)
qed (simp_all add: pending_localCreate pending_localUpdate pending_deleteAspect pending_ack
    pending_reject)

lemma pending_run:
  "set (addedIds s) \<subseteq> set (ids s) \<Longrightarrow> set (addedIds (run s evs)) \<subseteq> set (ids (run s evs))"
  unfolding run_def by (induction evs arbitrary: s) (simp_all add: pending_step)

lemma distinct_rekeyIds: "distinct xs \<Longrightarrow> distinct (rekeyIds old new xs)"
proof (cases "old = new")
  case True
  then show "distinct xs \<Longrightarrow> ?thesis" by (simp add: rekeyIds_def)
next
  case False
  assume d: "distinct xs"
  have "inj_on (\<lambda>i. if i = old then new else i) (set (removeAll new xs))"
    by (auto simp: inj_on_def)
  with d False show ?thesis
    by (simp add: rekeyIds_def distinct_map distinct_removeAll)
qed

lemma storeInv_upsert:
  assumes "storeInv s" and "set (addedIds s') = insert (id_field a) (set (addedIds s)) \<or> set (addedIds s') = set (addedIds s)"
    and "ids s' = ids (upsert a s)" and "entities s' = entities (upsert a s)"
  shows "storeInv s'"
  using assms unfolding storeInv_def
  by (auto simp: upsert_def split: if_splits)

lemma storeInv_localCreate: "storeInv s \<Longrightarrow> storeInv (localCreate a s)"
  by (rule storeInv_upsert [where a = a and s = s])
     (auto simp: localCreate_def addPending_def upsert_def)

lemma storeInv_localUpdate: "storeInv s \<Longrightarrow> storeInv (localUpdate a s)"
proof (cases "entities s (id_field a)")
  case None
  then show "storeInv s \<Longrightarrow> ?thesis" by (simp add: localUpdate_def)
next
  case (Some old)
  assume "storeInv s"
  then show ?thesis
    by (rule storeInv_upsert [where a = a and s = s])
       (auto simp: localUpdate_def Some addPending_def upsert_def)
qed

lemma storeInv_deleteAspect: "storeInv s \<Longrightarrow> storeInv (deleteAspect i s)"
  unfolding storeInv_def by (auto simp: deleteAspect_fields distinct_removeAll)

lemma storeInv_settle:
  assumes "storeInv s" and "corr \<in> set (ids s)"
  shows "storeInv (settle corr c s)"
proof -
  from assms have "distinct (ids (settle corr c s))"
    by (simp add: settle_fields distinct_rekeyIds storeInv_def)
  moreover from assms have "dom (entities (settle corr c s)) = set (ids (settle corr c s))"
    by (auto simp: settle_fields set_rekeyIds storeInv_def split: if_splits)
  moreover from assms have "\<forall>i a. entities (settle corr c s) i = Some a \<longrightarrow> id_field a = i"
    by (auto simp: settle_fields storeInv_def split: if_splits)
  moreover from assms have "set (addedIds (settle corr c s)) \<subseteq> set (ids (settle corr c s))"
    by (intro pending_settle) (auto simp: storeInv_def)
  ultimately show ?thesis by (simp add: storeInv_def)
qed

lemma storeInv_base_inflight:
  "storeInv (s\<lparr>base := b, inflight := n\<rparr>) = storeInv s" "storeInv (s\<lparr>base := b\<rparr>) = storeInv s"
  by (simp_all add: storeInv_def)

lemma storeInv_ack: "storeInv s \<Longrightarrow> storeInv (ack corr c s)"
  by (simp add: ack_def storeInv_settle storeInv_base_inflight)

lemma storeInv_reject: "storeInv s \<Longrightarrow> storeInv (reject corr why s)"
  by (simp add: reject_def storeInv_settle storeInv_deleteAspect split: option.splits)

lemma storeInv_remoteUpsert: "storeInv s \<Longrightarrow> storeInv (remoteUpsert c s)"
proof -
  assume inv: "storeInv s"
  have up: "storeInv (upsert c s)"
    by (rule storeInv_upsert [OF inv, where a = c]) (simp_all add: upsert_def)
  with inv show ?thesis
    by (simp add: remoteUpsert_def storeInv_base_inflight split: option.splits)
qed

lemma storeInv_remoteDelete: "storeInv s \<Longrightarrow> storeInv (remoteDelete i s)"
  by (simp add: remoteDelete_def storeInv_deleteAspect storeInv_base_inflight)

lemma storeInv_step: "storeInv s \<Longrightarrow> storeInv (step s e)"
proof (cases e)
  case (RemoteChange x)
  then show "storeInv s \<Longrightarrow> ?thesis"
    by (cases x) (simp_all add: storeInv_remoteUpsert storeInv_remoteDelete)
qed (simp_all add: storeInv_localCreate storeInv_localUpdate storeInv_deleteAspect storeInv_ack
    storeInv_reject)

lemma storeInv_run: "storeInv s \<Longrightarrow> storeInv (run s evs)"
  unfolding run_def by (induction evs arbitrary: s) (simp_all add: storeInv_step)

lemma storeInv_init: "storeInv init"
  by (simp add: storeInv_def init_def)

text \<open>The example sessions, evaluated.\<close>

lemmas eng_defs = run_def init_def localCreate_def localUpdate_def deleteAspect_def ack_def reject_def
  remoteUpsert_def remoteDelete_def settle_def toBase_def rekeyIds_def upsert_def remove_def
  addPending_def dropPending_def

lemma sessionEditing_fields:
  "ids sessionEditing = [''c-9'']" "entities sessionEditing ''c-9'' = Some c9edit"
  "addedIds sessionEditing = [''c-9'']" "base sessionEditing ''c-9'' = Some c9r1"
  by (simp_all add: sessionEditing_def eng_defs c9r1_def c9edit_def)

text \<open>
  In the engine of the specification a state is reached in which the pending ids are
  listed in another order than the ids of the store: an aspect arrives, a second one is
  created locally, and then the first is edited.
\<close>

lemma pending_order_differs:
  "ids (run init [RemoteChange (Aspect c9r1), LocalCreate tmp1, LocalUpdate c9edit]) =
     [''c-9'', ''tmp-1''] \<and>
   addedIds (run init [RemoteChange (Aspect c9r1), LocalCreate tmp1, LocalUpdate c9edit]) =
     [''tmp-1'', ''c-9'']"
  by (simp add: eng_defs c9r1_def tmp1_def c9edit_def)

text \<open>
  C6. In every session state reached from the initial session by local creates, local
  updates, deletions, Acks, Rejects and remote changes, the pending set is a subset of
  the ids of the entity store, which are the keys of its entries; and every one of these
  operations preserves the inclusion.
\<close>

theorem pending_subset_ids:
  "set (addedIds (run init evs)) \<subseteq> set (ids (run init evs)) \<and>
   set (ids (run init evs)) = dom (entities (run init evs)) \<and>
   (set (addedIds s) \<subseteq> set (ids s) \<longrightarrow> set (addedIds (step s e)) \<subseteq> set (ids (step s e)))"
  using storeInv_run [OF storeInv_init, of evs] pending_step [of s e]
  by (simp add: storeInv_def)

theorem pending_subset_ids_witness:
  "set (addedIds sessionCreated) \<subseteq> set (ids sessionCreated) \<and>
   addedIds sessionCreated = [''tmp-1''] \<and>
   set (addedIds (step sessionCreated (Ack ''tmp-1'' c9r1))) \<subseteq>
     set (ids (step sessionCreated (Ack ''tmp-1'' c9r1))) \<and>
   set (addedIds (run init [LocalCreate tmp1, Reject ''tmp-1'' ValidationRejected])) \<subseteq>
     set (ids (run init [LocalCreate tmp1, Reject ''tmp-1'' ValidationRejected]))"
proof -
  have 1: "set (addedIds sessionCreated) \<subseteq> set (ids sessionCreated)"
    "addedIds sessionCreated = [''tmp-1'']"
    by (simp_all add: sessionCreated_def eng_defs tmp1_def)
  from pending_subset_ids [of "[LocalCreate tmp1, Reject ''tmp-1'' ValidationRejected]"
      sessionCreated "Ack ''tmp-1'' c9r1"] 1
  show ?thesis by blast
qed

text \<open>
  C4. A remote change that carries an aspect whose revision is less than or equal to the
  revision stored for its id leaves the entity store (the order of the ids and the
  entries) and the pending set as they are.
\<close>

theorem remoteChange_stale_noop:
  assumes "entities s (id_field c) = Some a" and "revision c = Some r"
    and "revision a = Some r'" and "r \<le> r'"
  shows "ids (step s (RemoteChange (Aspect c))) = ids s \<and>
         entities (step s (RemoteChange (Aspect c))) = entities s \<and>
         addedIds (step s (RemoteChange (Aspect c))) = addedIds s"
  using assms by (simp add: remoteUpsert_def split: option.splits)

theorem remoteChange_stale_noop_witness:
  "entities (run init [RemoteChange (Aspect c9r2)]) (id_field c9r1) = Some c9r2 \<and>
   revision c9r1 = Some 1 \<and> revision c9r2 = Some 2 \<and> (1::nat) \<le> 2 \<and>
   ids (step (run init [RemoteChange (Aspect c9r2)]) (RemoteChange (Aspect c9r1))) = [''c-9''] \<and>
   entities (step (run init [RemoteChange (Aspect c9r2)]) (RemoteChange (Aspect c9r1))) ''c-9'' =
     Some c9r2"
proof -
  have 1: "entities (run init [RemoteChange (Aspect c9r2)]) (id_field c9r1) = Some c9r2"
    by (simp add: eng_defs c9r1_def c9r2_def)
  have 2: "revision c9r1 = Some 1" "revision c9r2 = Some 2"
    by (simp_all add: c9r1_def c9r2_def)
  have 3: "ids (run init [RemoteChange (Aspect c9r2)]) = [''c-9'']"
    by (simp add: eng_defs c9r2_def)
  from remoteChange_stale_noop [OF 1 2] 1 2 3 show ?thesis by (simp add: c9r1_def)
qed














text \<open>
  The Ack and the Reject of the id do resolve the edit: after the Reject the confirmed
  base is the visible aspect again, and the id is no longer pending.
\<close>

lemma reject_resolves_edit:
  "entities (step sessionEditing (Reject ''c-9'' ConflictRejected)) ''c-9'' = Some c9r1 \<and>
   ''c-9'' \<notin> set (addedIds (step sessionEditing (Reject ''c-9'' ConflictRejected)))"
  by (simp add: reject_def sessionEditing_fields settle_fields c9r1_def)

lemma count_list_pos_iff: "0 < count_list xs x \<longleftrightarrow> x \<in> set xs"
  by (induction xs) auto

lemma set_remove1_count:
  "set (remove1 x xs) = (if 1 < count_list xs x then set xs else set xs - {x})"
  by (induction xs) (auto simp: count_list_pos_iff)

lemma count_list_remove1:
  "count_list (remove1 x xs) y = (if x = y then count_list xs y - 1 else count_list xs y)"
  by (induction xs) auto

lemma acked_iff: "c \<in> acked evs \<longleftrightarrow> (\<exists>corr. Ack corr c \<in> set evs)"
  by (induction evs rule: acked.induct) auto

lemma confirmedBy_mono: "A \<subseteq> B \<Longrightarrow> confirmedBy A s i \<Longrightarrow> confirmedBy B s i"
  by (auto simp: confirmedBy_def)

lemma outstanding_localCreate:
  assumes "outstanding A out s"
  shows "outstanding A (id_field a # out) (localCreate a s)"
  using assms unfolding outstanding_def confirmedBy_def
  by (auto simp: localCreate_fields)

lemma outstanding_ack_more:
  assumes "outstanding A out s" and "corr \<in> set out" and "1 < inflight s corr"
  shows "outstanding (insert c A) (remove1 corr out) (ack corr c s)"
proof -
  from assms have ack: "ack corr c s =
      s\<lparr>base := (base s)(corr \<mapsto> c), inflight := (inflight s)(corr := inflight s corr - 1)\<rparr>"
    by (auto simp: ack_def outstanding_def)
  from assms have cnt: "1 < count_list out corr" by (simp add: outstanding_def)
  with assms(1) show ?thesis
    unfolding ack outstanding_def confirmedBy_def
    by (auto simp: set_remove1_count count_list_remove1)
qed

lemma outstanding_ack_last:
  assumes "outstanding A out s" and "corr \<in> set out" and "\<not> 1 < inflight s corr"
    and "revision c \<noteq> None"
  shows "outstanding (insert c A) (remove1 corr out) (ack corr c s)"
proof -
  from assms have mem: "corr \<in> set (addedIds s)" "corr \<in> set (ids s)"
    by (auto simp: outstanding_def)
  with assms have ack: "ack corr c s = settle corr c s"
    by (simp add: ack_def)
  from assms have cnt: "\<not> 1 < count_list out corr" by (simp add: outstanding_def)
  have 1: "set (addedIds (settle corr c s)) = set (remove1 corr out)"
    using assms(1) cnt by (auto simp: settle_fields set_remove1_count outstanding_def)
  have 2: "\<forall>i. inflight (settle corr c s) i = count_list (remove1 corr out) i"
    using assms(1) cnt by (auto simp: settle_fields count_list_remove1 outstanding_def)
  have 3: "set (addedIds (settle corr c s)) \<subseteq> set (ids (settle corr c s))"
    using assms(1) mem(2) by (intro pending_settle) (auto simp: outstanding_def)
  have 4: "\<forall>i \<in> set (ids (settle corr c s)).
      i \<in> set (addedIds (settle corr c s)) \<or> confirmedBy (insert c A) (settle corr c s) i"
  proof
    fix i assume "i \<in> set (ids (settle corr c s))"
    with mem(2) have i: "i = id_field c \<or> (i \<in> set (ids s) \<and> i \<noteq> corr)"
      by (auto simp: settle_fields set_rekeyIds)
    show "i \<in> set (addedIds (settle corr c s)) \<or> confirmedBy (insert c A) (settle corr c s) i"
    proof (cases "i = id_field c")
      case True
      with assms(4) show ?thesis by (auto simp: confirmedBy_def settle_fields)
    next
      case False
      with i have "i \<in> set (ids s)" "i \<noteq> corr" by auto
      with assms(1) False show ?thesis
        by (auto simp: outstanding_def confirmedBy_def settle_fields split: if_splits)
    qed
  qed
  from 1 2 3 4 show ?thesis unfolding ack outstanding_def by blast
qed

lemma outstanding_ack:
  assumes "outstanding A out s" and "corr \<in> set out" and "revision c \<noteq> None"
  shows "outstanding (insert c A) (remove1 corr out) (ack corr c s)"
  using assms outstanding_ack_more outstanding_ack_last by blast

lemma outstanding_run:
  "outstanding A out s \<Longrightarrow> matched out evs \<Longrightarrow> outstanding (A \<union> acked evs) [] (run s evs)"
proof (induction out evs arbitrary: s A rule: matched.induct)
  case (1 out)
  then show ?case by (simp add: run_def)
next
  case (2 out a es)
  from 2 have "outstanding A (id_field a # out) (localCreate a s)" "matched (id_field a # out) es"
    by (simp_all add: outstanding_localCreate)
  from "2.IH" [OF this] show ?case by (simp add: run_def)
next
  case (3 out corr c es)
  from 3 have "outstanding (insert c A) (remove1 corr out) (ack corr c s)"
    "matched (remove1 corr out) es"
    by (simp_all add: outstanding_ack)
  from "3.IH" [OF this] show ?case by (simp add: run_def)
qed simp_all

lemma outstanding_init: "outstanding {} [] init"
  by (simp add: outstanding_def init_def)

text \<open>
  C2. After a sequence of local creates in which every create is followed by the Ack
  with its correlation id, each Ack carrying a canonical aspect, the pending set is
  empty and every entry of the entity store is the canonical aspect of one of the Acks,
  stored under its own id: no tentative entry remains.
\<close>

theorem creates_acked_settled:
  assumes "matched [] evs"
  shows "addedIds (run init evs) = [] \<and>
         (\<forall>i \<in> set (ids (run init evs)).
            \<exists>corr c. Ack corr c \<in> set evs \<and> entities (run init evs) i = Some c \<and>
                     id_field c = i \<and> revision c \<noteq> None)"
proof -
  from outstanding_run [OF outstanding_init assms]
  have out: "outstanding (acked evs) [] (run init evs)" by simp
  then have "addedIds (run init evs) = []" by (simp add: outstanding_def)
  moreover from out have "\<forall>i \<in> set (ids (run init evs)). confirmedBy (acked evs) (run init evs) i"
    by (auto simp: outstanding_def)
  then have "\<forall>i \<in> set (ids (run init evs)).
            \<exists>corr c. Ack corr c \<in> set evs \<and> entities (run init evs) i = Some c \<and>
                     id_field c = i \<and> revision c \<noteq> None"
    unfolding confirmedBy_def by (metis acked_iff)
  ultimately show ?thesis by blast
qed

theorem creates_acked_settled_witness:
  "matched [] [LocalCreate tmp1, Ack ''tmp-1'' c9r1] \<and>
   addedIds (run init [LocalCreate tmp1, Ack ''tmp-1'' c9r1]) = [] \<and>
   ids (run init [LocalCreate tmp1, Ack ''tmp-1'' c9r1]) = [''c-9''] \<and>
   entities (run init [LocalCreate tmp1, Ack ''tmp-1'' c9r1]) ''c-9'' = Some c9r1"
proof -
  have 1: "matched [] [LocalCreate tmp1, Ack ''tmp-1'' c9r1]"
    by (simp add: tmp1_def c9r1_def)
  have 2: "ids (run init [LocalCreate tmp1, Ack ''tmp-1'' c9r1]) = [''c-9'']"
    by (simp add: eng_defs tmp1_def c9r1_def)
  from creates_acked_settled [OF 1] 1 2 show ?thesis by simp
qed

end
